theory Spec2Isabelle
  imports Complex_Main "HOL-Library.Sublist" "HOL-Library.Word"
    "HOL-Library.List_Lexorder" "HOL-Library.Char_ord"
begin

section \<open>Paths, the selection store and the file system\<close>

text \<open>
  A \<open>pathlib\<close> path of a POSIX system is its anchor (absolute or not) and its list of
  components. Two paths are equal exactly when both agree, as \<open>PurePosixPath.__eq__\<close> has it.
\<close>

datatype ppath = PPath (is_absolute: bool) (parts: "string list")

fun join :: "string \<Rightarrow> string list \<Rightarrow> string" where
  "join sep [] = []"
| "join sep [x] = x"
| "join sep (x # y # ys) = x @ sep @ join sep (y # ys)"

text \<open>\<open>str(p)\<close>: the components joined by a slash, \<open>"."\<close> for the empty relative path.\<close>

definition path_str :: "ppath \<Rightarrow> string" where
  "path_str p =
     (if is_absolute p then ''/'' @ join ''/'' (parts p)
      else if parts p = [] then ''.'' else join ''/'' (parts p))"

text \<open>\<open>p.parent\<close>: the last component dropped; a path without components is its own parent.\<close>

definition parent :: "ppath \<Rightarrow> ppath" where
  "parent p = PPath (is_absolute p) (butlast (parts p))"

text \<open>\<open>p.name\<close>: the last component, the empty string when there is none.\<close>

definition name :: "ppath \<Rightarrow> string" where
  "name p = (if parts p = [] then [] else last (parts p))"

text \<open>
  \<open>p.relative_to(other)\<close> returns the remaining components when both paths have the same
  anchor and the components of \<open>other\<close> begin those of \<open>p\<close>; it raises \<open>ValueError\<close>
  (here \<open>None\<close>) otherwise.
\<close>

definition relative_to :: "ppath \<Rightarrow> ppath \<Rightarrow> ppath option" where
  "relative_to p other =
     (if is_absolute p = is_absolute other \<and> prefix (parts other) (parts p)
      then Some (PPath False (drop (length (parts other)) (parts p)))
      else None)"

definition S_CHECKED :: string where "S_CHECKED = ''checked''"
definition S_UNCHECKED :: string where "S_UNCHECKED = ''unchecked''"

text \<open>\<open>folder_tree_item_states\<close>: a dictionary from path strings to state strings.\<close>

type_synonym item_states = "string \<rightharpoonup> string"

text \<open>
  The part of the file system the selection query reads: \<open>Path.is_dir\<close> and
  \<open>Path.resolve\<close>, \<open>None\<close> when resolving raises.
\<close>

record fs_env =
  is_dir :: "ppath \<Rightarrow> bool"
  resolve :: "ppath \<Rightarrow> ppath option"

section \<open>Effective selection\<close>

text \<open>
  The \<open>while True\<close> loop of \<open>is_path_effectively_selected\<close>, from the resolved path upwards.
  Leaving the loop at the file system root returns \<open>False\<close>.
\<close>

function selection_walk :: "item_states \<Rightarrow> ppath \<Rightarrow> ppath \<Rightarrow> bool" where
  "selection_walk states project_root p =
     (if states (path_str p) = Some S_UNCHECKED then False
      else if states (path_str p) = None \<and> p \<noteq> project_root then False
      else if p = project_root then
        (case states (path_str project_root) of None \<Rightarrow> S_CHECKED | Some s \<Rightarrow> s) = S_CHECKED
      else if parent p = p then False
      else selection_walk states project_root (parent p))"
  by pat_completeness auto
termination
proof (relation "measure (\<lambda>(states, project_root, p). length (parts p))")
  show "wf (measure (\<lambda>(states, project_root, p). length (parts p)))" by simp
next
  fix states :: item_states and project_root p :: ppath
  assume "parent p \<noteq> p"
  then have "parts p \<noteq> []"
    by (cases p) (auto simp: parent_def)
  then show "((states, project_root, parent p), (states, project_root, p))
      \<in> measure (\<lambda>(states, project_root, p). length (parts p))"
    by (simp add: parent_def)
qed

declare selection_walk.simps [simp del]

definition is_path_effectively_selected ::
  "fs_env \<Rightarrow> item_states \<Rightarrow> ppath \<Rightarrow> ppath option \<Rightarrow> bool" where
  "is_path_effectively_selected fs states path_to_check project_root =
     (case project_root of
        None \<Rightarrow> False
      | Some base \<Rightarrow>
          if \<not> is_dir fs base then False
          else (case resolve fs path_to_check of
                  None \<Rightarrow> False
                | Some current_path \<Rightarrow>
                    (case resolve fs base of
                       None \<Rightarrow> False
                     | Some resolved_root \<Rightarrow>
                         if current_path \<noteq> resolved_root
                            \<and> relative_to current_path resolved_root = None
                         then False
                         else selection_walk states resolved_root current_path)))"

text \<open>The relation "at or under": equal, or \<open>relative_to\<close> succeeds.\<close>

definition at_or_under :: "ppath \<Rightarrow> ppath \<Rightarrow> bool" where
  "at_or_under p base \<longleftrightarrow>
     is_absolute p = is_absolute base \<and> prefix (parts base) (parts p)"

text \<open>The directories from the root down to \<open>p\<close>, both included.\<close>

definition chain :: "ppath \<Rightarrow> ppath \<Rightarrow> ppath list" where
  "chain base p =
     map (\<lambda>n. PPath (is_absolute p) (take n (parts p)))
       [length (parts base) ..< Suc (length (parts p))]"

text \<open>
  The store holds only the two state constants: every write to \<open>folder_tree_item_states\<close>
  (scan seeding, toggling, states loaded from a config) stores one of them.
\<close>

definition binary_states :: "item_states \<Rightarrow> bool" where
  "binary_states states \<longleftrightarrow>
     (\<forall>k v. states k = Some v \<longrightarrow> v = S_CHECKED \<or> v = S_UNCHECKED)"

text \<open>
  The explicit state the specification asks of a directory of the chain: \<open>Checked\<close>, where
  the root alone may also have no stored state.
\<close>

definition chain_ok :: "item_states \<Rightarrow> ppath \<Rightarrow> ppath \<Rightarrow> bool" where
  "chain_ok states base d \<longleftrightarrow>
     (if d = base then states (path_str d) = None \<or> states (path_str d) = Some S_CHECKED
      else states (path_str d) = Some S_CHECKED)"

text \<open>What one pass of the loop accepts at a directory of the chain.\<close>

definition walk_ok :: "item_states \<Rightarrow> ppath \<Rightarrow> ppath \<Rightarrow> bool" where
  "walk_ok states r d \<longleftrightarrow>
     states (path_str d) \<noteq> Some S_UNCHECKED \<and>
        (if d = r then states (path_str d) = None \<or> states (path_str d) = Some S_CHECKED
         else states (path_str d) \<noteq> None)"

section \<open>Toggling a tree item\<close>

text \<open>
  \<open>on_tree_item_click\<close>, as far as the store goes: \<open>element_clicked\<close> and \<open>item_id\<close> are
  what the tree widget identifies under the pointer. A click on no row or on the
  expand indicator, and a click on an item without a stored state, change nothing.
\<close>

definition on_tree_item_click :: "item_states \<Rightarrow> string \<Rightarrow> string \<Rightarrow> item_states" where
  "on_tree_item_click states element_clicked item_id =
     (if item_id = [] \<or> sublist ''indicator'' element_clicked then states
      else (case states item_id of
              None \<Rightarrow> states
            | Some current_explicit_state \<Rightarrow>
                states(item_id \<mapsto>
                  (if current_explicit_state = S_UNCHECKED then S_CHECKED else S_UNCHECKED))))"

section \<open>Filename exclusion\<close>

definition startswith :: "string \<Rightarrow> string \<Rightarrow> bool" where
  "startswith s pre = prefix pre s"

definition endswith :: "string \<Rightarrow> string \<Rightarrow> bool" where
  "endswith s suf = suffix suf s"

definition PREDEFINED_EXCLUDED_FILENAMES :: "string list" where
  "PREDEFINED_EXCLUDED_FILENAMES =
     [''package-lock.json'', ''yarn.lock'', ''.DS_Store'', ''Thumbs.db'',
      ''*.pyc'', ''*.pyo'', ''*.swp'', ''*.swo'']"

text \<open>
  The \<open>for pattern in all_exclusion_patterns\<close> loop of \<open>should_exclude_file\<close>, over the
  patterns in the order the iteration yields them.
\<close>

fun exclusion_loop :: "string list \<Rightarrow> string \<Rightarrow> bool" where
  "exclusion_loop [] filename = False"
| "exclusion_loop (pattern # rest) filename =
     (if pattern = [] then exclusion_loop rest filename
      else if startswith pattern ''*.'' then
        (if endswith filename (drop 1 pattern) then True else exclusion_loop rest filename)
      else (if pattern = filename then True else exclusion_loop rest filename))"

text \<open>
  The two sets are given by lists of their elements. The union is iterated in an order
  Python does not fix; \<open>exclusion_loop_iff\<close> below shows that the result depends on the
  set of patterns only.
\<close>

definition should_exclude_file :: "string list \<Rightarrow> string \<Rightarrow> bool" where
  "should_exclude_file dynamic_global_excluded_filenames filename =
     exclusion_loop (PREDEFINED_EXCLUDED_FILENAMES @ dynamic_global_excluded_filenames) filename"

text \<open>The matching rule in the specification's words, for one pattern.\<close>

definition pattern_matches :: "string \<Rightarrow> string \<Rightarrow> bool" where
  "pattern_matches pattern filename \<longleftrightarrow>
     (if startswith pattern ''*.'' then endswith filename (drop 1 pattern)
      else pattern = filename)"

section \<open>Binary files\<close>

type_synonym byte = "8 word"

definition FORCE_BINARY_EXTENSIONS_FOR_DUMP :: "string list" where
  "FORCE_BINARY_EXTENSIONS_FOR_DUMP =
     [''.tar.gz'', ''.gz'', ''.zip'', ''.rar'', ''.7z'', ''.bz2'', ''.xz'', ''.tgz'',
      ''.png'', ''.jpg'', ''.jpeg'', ''.gif'', ''.bmp'', ''.ico'', ''.webp'', ''.tif'', ''.tiff'',
      ''.mp3'', ''.wav'', ''.ogg'', ''.flac'', ''.aac'', ''.m4a'',
      ''.mp4'', ''.mkv'', ''.avi'', ''.mov'', ''.webm'', ''.flv'', ''.wmv'',
      ''.pdf'', ''.doc'', ''.docx'', ''.xls'', ''.xlsx'', ''.ppt'', ''.pptx'', ''.odt'', ''.ods'',
      ''.odp'',
      ''.exe'', ''.dll'', ''.so'', ''.o'', ''.a'', ''.lib'', ''.app'', ''.dmg'', ''.deb'', ''.rpm'',
      ''.db'', ''.sqlite'', ''.mdb'', ''.accdb'', ''.dat'', ''.idx'', ''.pickle'', ''.joblib'',
      ''.pyc'', ''.pyo'', ''.class'', ''.jar'', ''.wasm'',
      ''.ttf'', ''.otf'', ''.woff'', ''.woff2'',
      ''.iso'', ''.img'', ''.bin'', ''.bak'', ''.data'', ''.asset'', ''.pak'']"

text \<open>\<open>str.lower\<close> on ASCII text: the letters \<open>A\<close> to \<open>Z\<close> move to \<open>a\<close> to \<open>z\<close>.\<close>

definition lower_char :: "char \<Rightarrow> char" where
  "lower_char c =
     (case map_of (zip ''ABCDEFGHIJKLMNOPQRSTUVWXYZ'' ''abcdefghijklmnopqrstuvwxyz'') c of
        None \<Rightarrow> c
      | Some l \<Rightarrow> l)"

definition lower :: "string \<Rightarrow> string" where
  "lower s = map lower_char s"

text \<open>\<open>s.split(c)\<close>: the pieces between the occurrences of \<open>c\<close>, at least one piece.\<close>

fun split_on :: "char \<Rightarrow> string \<Rightarrow> string list" where
  "split_on c [] = [[]]"
| "split_on c (x # xs) =
     (if x = c then [] # split_on c xs
      else (case split_on c xs of [] \<Rightarrow> [[x]] | w # ws \<Rightarrow> (x # w) # ws))"

text \<open>
  \<open>PurePath.suffixes\<close> of a file name: none when the name ends with a dot; otherwise the
  leading dots are stripped and every piece after the first dot is a suffix.
\<close>

definition path_suffixes :: "string \<Rightarrow> string list" where
  "path_suffixes nm =
     (if endswith nm ''.'' then []
      else map (\<lambda>s. CHR ''.'' # s)
             (drop 1 (split_on CHR ''.'' (dropWhile (\<lambda>c. c = CHR ''.'') nm))))"

text \<open>
  \<open>is_binary\<close>. \<open>read_file\<close> gives the bytes of a file, \<open>None\<close> when opening or reading
  raises; both handlers of the source return \<open>True\<close>.
\<close>

definition is_binary :: "(ppath \<Rightarrow> byte list option) \<Rightarrow> ppath \<Rightarrow> bool" where
  "is_binary read_file file_path =
     (if lower (concat (path_suffixes (name file_path))) \<in> set FORCE_BINARY_EXTENSIONS_FOR_DUMP
      then True
      else (case read_file file_path of
              None \<Rightarrow> True
            | Some content \<Rightarrow> 0 \<in> set (take 1024 content)))"

text \<open>
  The classification as the specification words it: the compound suffix itself is looked
  up in the extension set.
\<close>

definition is_binary_as_specified :: "(ppath \<Rightarrow> byte list option) \<Rightarrow> ppath \<Rightarrow> bool" where
  "is_binary_as_specified read_file file_path \<longleftrightarrow>
     concat (path_suffixes (name file_path)) \<in> set FORCE_BINARY_EXTENSIONS_FOR_DUMP
     \<or> (case read_file file_path of
           None \<Rightarrow> True
         | Some content \<Rightarrow> 0 \<in> set (take 1024 content))"

section \<open>The directory scan\<close>


definition EXCLUDED_FOLDERS :: "string list" where
  "EXCLUDED_FOLDERS =
     [''node_modules'', ''.git'', ''__pycache__'', ''.venv'', ''.mypy_cache'',
      ''_logs'', ''dist'', ''build'', ''.vscode'', ''.idea'', ''target'', ''out'',
      ''bin'', ''obj'', ''Debug'', ''Release'', ''logs'']"


text \<open>One dictionary of \<open>tree_data\<close>.\<close>

record tree_entry =
  entry_parent :: string
  entry_iid :: string
  entry_text :: string
  entry_open :: bool

text \<open>
  The exceptions that leave \<open>_scan_recursive\<close>: \<open>TimeoutError\<close>, and any other exception
  that the handler of a directory does not catch.
\<close>

datatype scan_error = TimeoutError | OtherError


text \<open>
  The variables the scan updates: \<open>start_time\<close>, the number of clock readings and of
  questions so far, \<open>tree_data\<close> and \<open>folder_tree_item_states\<close>.
\<close>

record scan_state =
  start_time :: real
  ticks :: nat
  asked :: nat
  tree_data :: "tree_entry list"
  store :: item_states

text \<open>A scan returns its state, or raises with the state reached at the raise.\<close>

type_synonym scan_result = "(scan_error \<times> scan_state) + scan_state"

text \<open>\<open>p / n\<close>: one more component.\<close>

definition child :: "ppath \<Rightarrow> string \<Rightarrow> ppath" where
  "child p n = PPath (is_absolute p) (parts p @ [n])"


text \<open>The state a discovered directory is seeded with (\<open>initial_state\<close> in the loop).\<close>

definition initial_state :: "item_states \<Rightarrow> string \<Rightarrow> string \<Rightarrow> string \<Rightarrow> string" where
  "initial_state persisted_states path_s relative_path_s p_name =
     (if p_name \<in> set EXCLUDED_FOLDERS \<and> persisted_states path_s = None
         \<and> persisted_states relative_path_s = None
      then S_UNCHECKED
      else (case persisted_states path_s of
              Some s \<Rightarrow> s
            | None \<Rightarrow> (case persisted_states relative_path_s of
                         Some s \<Rightarrow> s
                       | None \<Rightarrow> S_CHECKED)))"


definition error_entry :: "ppath \<Rightarrow> string \<Rightarrow> tree_entry" where
  "error_entry current_path parent_iid =
     \<lparr>entry_parent = parent_iid,
      entry_iid = ''error_'' @ name current_path @ ''_'' @ parent_iid,
      entry_text = [CHR 0xF0, CHR 0x9F, CHR 0x9A, CHR 0xAB] @ '' Error reading ''
                   @ name current_path,
      entry_open = False\<rparr>"













text \<open>Snapshots without the abort marker, and the state a scan ends in.\<close>

definition no_marker :: "tree_entry list \<Rightarrow> bool" where
  "no_marker es \<longleftrightarrow> (\<forall>e \<in> set es. entry_iid e \<noteq> ''timeout_error'')"

definition final_state :: "scan_result \<Rightarrow> scan_state" where
  "final_state r = (case r of Inr st \<Rightarrow> st | Inl (e, st) \<Rightarrow> st)"

section \<open>The display projection\<close>

text \<open>The three glyphs a tree item is shown with.\<close>

definition GLYPH_CHECKED :: string where "GLYPH_CHECKED = ''[X]''"
definition GLYPH_UNCHECKED :: string where "GLYPH_UNCHECKED = ''[ ]''"
definition GLYPH_TRISTATE :: string where "GLYPH_TRISTATE = ''[/]''"

text \<open>
  The tree widget, as far as the refresh reads it: an item has its identifier, its tags and
  its children in display order.
\<close>

datatype tree_item =
  Item (item_iid: string) (item_tags: "string list") (item_children: "tree_item list")

text \<open>
  The loop over the children of an item: the number of tracked children that are
  \<open>Checked\<close>, and the number of tracked children.
\<close>

fun count_children :: "item_states \<Rightarrow> string list \<Rightarrow> nat \<Rightarrow> nat \<Rightarrow> nat \<times> nat" where
  "count_children states [] num_children_explicitly_checked num_relevant_children =
     (num_children_explicitly_checked, num_relevant_children)"
| "count_children states (child_id # rest) num_children_explicitly_checked
       num_relevant_children =
     (if states child_id \<noteq> None then
        count_children states rest
          (if states child_id = Some S_CHECKED then num_children_explicitly_checked + 1
           else num_children_explicitly_checked)
          (num_relevant_children + 1)
      else count_children states rest num_children_explicitly_checked num_relevant_children)"

text \<open>\<open>folder_tree_item_states.get(item_id, S_UNCHECKED)\<close>.\<close>

definition item_explicit_state :: "item_states \<Rightarrow> string \<Rightarrow> string" where
  "item_explicit_state states item_id =
     (case states item_id of None \<Rightarrow> S_UNCHECKED | Some s \<Rightarrow> s)"

definition node_is_effectively_unchecked_for_children ::
  "item_states \<Rightarrow> string \<Rightarrow> bool \<Rightarrow> bool" where
  "node_is_effectively_unchecked_for_children states item_id parent_effectively_unchecked \<longleftrightarrow>
     parent_effectively_unchecked \<or> item_explicit_state states item_id = S_UNCHECKED"

definition current_visual_glyph ::
  "item_states \<Rightarrow> string \<Rightarrow> string list \<Rightarrow> bool \<Rightarrow> string" where
  "current_visual_glyph states item_id children parent_effectively_unchecked =
     (if parent_effectively_unchecked \<or> item_explicit_state states item_id = S_UNCHECKED
      then GLYPH_UNCHECKED
      else if children = [] then GLYPH_CHECKED
      else (case count_children states children 0 0 of
              (num_children_explicitly_checked, num_relevant_children) \<Rightarrow>
                if num_relevant_children = 0 then GLYPH_CHECKED
                else if num_children_explicitly_checked = num_relevant_children
                then GLYPH_CHECKED
                else if num_children_explicitly_checked = 0 \<and> num_relevant_children > 0
                then GLYPH_TRISTATE
                else GLYPH_TRISTATE))"

text \<open>
  \<open>_update_node_visual_recursive\<close>: the glyph each visited item is rewritten with, in the
  order of the visit. The rest of the item's text (its name and its size suffix) is kept
  by the source and left out here. An item tagged \<open>error_node\<close> is skipped with all below.
\<close>

fun update_node_visual_recursive ::
  "item_states \<Rightarrow> tree_item \<Rightarrow> bool \<Rightarrow> (string \<times> string) list" where
  "update_node_visual_recursive states (Item item_id tags children)
       parent_effectively_unchecked =
     (if ''error_node'' \<in> set tags then []
      else (item_id, current_visual_glyph states item_id (map item_iid children)
                       parent_effectively_unchecked)
           # concat (map (\<lambda>c. update_node_visual_recursive states c
                             (node_is_effectively_unchecked_for_children states item_id
                                parent_effectively_unchecked))
                       children))"

text \<open>\<open>refresh_tree_visuals\<close>; \<open>None\<close> when the tree has no item \<open>root_item_id\<close>.\<close>

definition refresh_tree_visuals ::
  "item_states \<Rightarrow> tree_item option \<Rightarrow> (string \<times> string) list" where
  "refresh_tree_visuals states root_item =
     (case root_item of
        None \<Rightarrow> []
      | Some item \<Rightarrow> update_node_visual_recursive states item False)"

text \<open>The tri-state rule in the specification's words.\<close>

datatype projection = FullyChecked | FullyUnchecked | Mixed

fun glyph_of :: "projection \<Rightarrow> string" where
  "glyph_of FullyChecked = GLYPH_CHECKED"
| "glyph_of FullyUnchecked = GLYPH_UNCHECKED"
| "glyph_of Mixed = GLYPH_TRISTATE"

definition tracked_children :: "item_states \<Rightarrow> string list \<Rightarrow> string list" where
  "tracked_children states children = filter (\<lambda>c. states c \<noteq> None) children"

definition project_children :: "item_states \<Rightarrow> string list \<Rightarrow> projection" where
  "project_children states children =
     (if tracked_children states children = [] then FullyChecked
      else if \<forall>c \<in> set (tracked_children states children). states c = Some S_CHECKED
      then FullyChecked
      else if \<forall>c \<in> set (tracked_children states children). states c \<noteq> Some S_CHECKED
      then Mixed
      else Mixed)"

definition project_as_specified ::
  "item_states \<Rightarrow> string list \<Rightarrow> string \<Rightarrow> string list \<Rightarrow> projection" where
  "project_as_specified states ancestors item_id children =
     (if states item_id = Some S_UNCHECKED
         \<or> (\<exists>a \<in> set ancestors. states a = Some S_UNCHECKED)
      then FullyUnchecked
      else project_children states children)"

text \<open>An item without a stored state counts as \<open>Unchecked\<close> in the refresh.\<close>

definition off :: "item_states \<Rightarrow> string \<Rightarrow> bool" where
  "off states k \<longleftrightarrow> states k = None \<or> states k = Some S_UNCHECKED"

definition project_amended ::
  "item_states \<Rightarrow> string list \<Rightarrow> string \<Rightarrow> string list \<Rightarrow> projection" where
  "project_amended states ancestors item_id children =
     (if off states item_id \<or> (\<exists>a \<in> set ancestors. off states a)
      then FullyUnchecked
      else project_children states children)"

text \<open>The projection of every item of a tree by a rule that reads the item's ancestors.\<close>

fun projections ::
  "(item_states \<Rightarrow> string list \<Rightarrow> string \<Rightarrow> string list \<Rightarrow> projection)
     \<Rightarrow> item_states \<Rightarrow> string list \<Rightarrow> tree_item \<Rightarrow> (string \<times> string) list" where
  "projections rule states ancestors (Item item_id tags children) =
     (if ''error_node'' \<in> set tags then []
      else (item_id, glyph_of (rule states ancestors item_id (map item_iid children)))
           # concat (map (projections rule states (item_id # ancestors)) children))"

section \<open>Backup\<close>

text \<open>
  The project as \<open>os.walk\<close> meets it: a directory with its name, the names of its files and
  its subdirectories.
\<close>

datatype walk_tree = WalkDir (wname: string) (wfiles: "string list") (wdirs: "walk_tree list")

text \<open>
  The walk of \<open>backup_project_impl\<close>: the files handed to \<open>tar.add\<close>, in order. At each
  directory the subdirectories that are not effectively selected are pruned, and the
  files of a directory that is not effectively selected are skipped.
\<close>

fun walk_files :: "(ppath \<Rightarrow> bool) \<Rightarrow> string list \<Rightarrow> ppath \<Rightarrow> walk_tree \<Rightarrow> ppath list" where
  "walk_files selected dyn current_scan_dir (WalkDir n file_names dir_names_orig) =
     (if \<not> selected current_scan_dir then []
      else map (child current_scan_dir)
             (filter (\<lambda>file_name. \<not> should_exclude_file dyn file_name) file_names))
     @ concat (map (\<lambda>d. walk_files selected dyn (child current_scan_dir (wname d)) d)
                 (filter (\<lambda>d. selected (child current_scan_dir (wname d))) dir_names_orig))"

text \<open>
  Adding the files one by one: the count of files added and whether \<open>tar.add\<close> raised,
  which ends the loop.
\<close>

fun add_files :: "(ppath \<Rightarrow> bool) \<Rightarrow> ppath list \<Rightarrow> nat \<Rightarrow> nat \<times> bool" where
  "add_files add_ok [] files_added_count = (files_added_count, False)"
| "add_files add_ok (file_path # rest) files_added_count =
     (if add_ok file_path then add_files add_ok rest (files_added_count + 1)
      else (files_added_count, True))"

text \<open>
  What the backup meets outside: the file system, whether the log directory and the
  archive can be created, which files can be added, and the size of the closed archive
  on disk.
\<close>

record backup_env =
  backup_fs :: fs_env
  log_dir_ok :: bool
  tar_open_ok :: bool
  add_ok :: "ppath \<Rightarrow> bool"
  archive_st_size :: nat

text \<open>What a run leaves: the number of files added and whether the archive file exists.\<close>

record backup_result =
  files_added :: nat
  archive_on_disk :: bool

text \<open>
  \<open>backup_project_impl\<close>. An exception inside the \<open>try\<close> is logged by its handler, which
  removes nothing; the removal of an archive without files is guarded by its size.
\<close>

definition backup_project_impl ::
  "backup_env \<Rightarrow> item_states \<Rightarrow> string list \<Rightarrow> ppath option \<Rightarrow> walk_tree \<Rightarrow> backup_result" where
  "backup_project_impl env states dyn selected_root_path tree =
     (case selected_root_path of
        None \<Rightarrow> \<lparr>files_added = 0, archive_on_disk = False\<rparr>
      | Some rt \<Rightarrow>
          if \<not> is_dir (backup_fs env) rt then \<lparr>files_added = 0, archive_on_disk = False\<rparr>
          else if \<not> log_dir_ok env then \<lparr>files_added = 0, archive_on_disk = False\<rparr>
          else if \<not> tar_open_ok env then \<lparr>files_added = 0, archive_on_disk = False\<rparr>
          else (case add_files (add_ok env)
                       (if \<not> is_path_effectively_selected (backup_fs env) states rt (Some rt)
                        then []
                        else walk_files
                               (\<lambda>p. is_path_effectively_selected (backup_fs env) states p (Some rt))
                               dyn rt tree) 0 of
                  (files_added_count, raised) \<Rightarrow>
                    if raised then \<lparr>files_added = files_added_count, archive_on_disk = True\<rparr>
                    else if files_added_count > 0
                    then \<lparr>files_added = files_added_count, archive_on_disk = True\<rparr>
                    else if archive_st_size env < 100
                    then \<lparr>files_added = files_added_count, archive_on_disk = False\<rparr>
                    else \<lparr>files_added = files_added_count, archive_on_disk = True\<rparr>))"

section \<open>Persisting the project configuration\<close>

text \<open>
  \<open>Path(s)\<close> on a POSIX system: the string is cut at the slashes, empty pieces and \<open>"."\<close>
  pieces are dropped, and the path is absolute when the string starts with a slash.
  (The root written with exactly two slashes, which \<open>pathlib\<close> keeps apart, is not modelled.)
\<close>

definition parse_path :: "string \<Rightarrow> ppath" where
  "parse_path s =
     PPath (startswith s ''/'')
       (filter (\<lambda>c. c \<noteq> [] \<and> c \<noteq> ''.'') (split_on CHR ''/'' s))"

text \<open>\<open>p.joinpath(s)\<close>: an absolute \<open>s\<close> replaces \<open>p\<close>, a relative one extends it.\<close>

definition joinpath :: "ppath \<Rightarrow> string \<Rightarrow> ppath" where
  "joinpath p s =
     (if is_absolute (parse_path s) then parse_path s
      else PPath (is_absolute p) (parts p @ parts (parse_path s)))"

text \<open>
  \<open>d[k] = v\<close> on a dictionary given by its items in insertion order: an existing key keeps
  its place, a new key is added at the end.
\<close>

fun dict_set :: "(string \<times> string) list \<Rightarrow> string \<Rightarrow> string \<Rightarrow> (string \<times> string) list" where
  "dict_set [] k v = [(k, v)]"
| "dict_set ((k', v') # rest) k v =
     (if k' = k then (k, v) # rest else (k', v') # dict_set rest k v)"

text \<open>The JSON document: the folder states in insertion order and the exclusion list.\<close>

record project_config =
  folder_states :: "(string \<times> string) list"
  dynamic_file_exclusions :: "string list"

text \<open>
  What saving and loading meet outside: the file system, whether a path exists, whether
  the directory of the configuration file can be had, and whether writing and reading
  the file succeed. The file holds the document it was written with: \<open>json.dump\<close> followed
  by \<open>json.load\<close> gives back a dictionary of strings and a list of strings as they were.
\<close>

record config_env =
  cfg_fs :: fs_env
  path_exists :: "ppath \<Rightarrow> bool"
  config_path_ok :: bool
  write_ok :: bool
  read_ok :: bool

text \<open>The key a stored path string is saved under: relative to the root where it can be.\<close>

definition saved_key :: "ppath \<Rightarrow> string \<Rightarrow> string" where
  "saved_key project_root abs_path_str =
     (if is_absolute (parse_path abs_path_str) \<and> is_absolute project_root
      then (case relative_to (parse_path abs_path_str) project_root of
              Some relative \<Rightarrow> path_str relative
            | None \<Rightarrow> abs_path_str)
      else abs_path_str)"

text \<open>The loop of \<open>save_project_config\<close> over the items of the store.\<close>

fun save_loop ::
  "ppath \<Rightarrow> (string \<times> string) list \<Rightarrow> (string \<times> string) list \<Rightarrow> (string \<times> string) list" where
  "save_loop project_root [] relative_folder_states = relative_folder_states"
| "save_loop project_root ((abs_path_str, state) # rest) relative_folder_states =
     save_loop project_root rest
       (dict_set relative_folder_states (saved_key project_root abs_path_str) state)"

text \<open>
  \<open>save_project_config\<close>: the store is given by its items in insertion order, the dynamic
  exclusions by a list of the set's elements; the result is the configuration file
  afterwards (\<open>None\<close> when there is none). Without a valid root or a place for the file
  nothing is written; a failed write is taken to leave the file as it was.
\<close>

definition save_project_config ::
  "config_env \<Rightarrow> (string \<times> string) list \<Rightarrow> string list \<Rightarrow> ppath option
     \<Rightarrow> project_config option \<Rightarrow> project_config option" where
  "save_project_config env store_items dynamic_exclusions project_root config_file =
     (case project_root of
        None \<Rightarrow> config_file
      | Some rt \<Rightarrow>
          if \<not> is_dir (cfg_fs env) rt then config_file
          else if \<not> config_path_ok env then config_file
          else if \<not> write_ok env then config_file
          else Some \<lparr>folder_states = save_loop rt store_items [],
                     dynamic_file_exclusions = sorted_list_of_set (set dynamic_exclusions)\<rparr>)"

text \<open>
  One pass of the loop of \<open>load_project_config\<close>: an invalid state is skipped; the key is
  joined to the root and resolved; when that raises, a key that is an absolute existing
  path is kept as it is.
\<close>

definition load_entry ::
  "config_env \<Rightarrow> ppath \<Rightarrow> string \<Rightarrow> string \<Rightarrow> item_states \<Rightarrow> item_states" where
  "load_entry env project_root rel_path_str state loaded =
     (if state \<noteq> S_CHECKED \<and> state \<noteq> S_UNCHECKED then loaded
      else (case resolve (cfg_fs env) (joinpath project_root rel_path_str) of
              Some abs_path \<Rightarrow> loaded(path_str abs_path \<mapsto> state)
            | None \<Rightarrow>
                if is_absolute (parse_path rel_path_str)
                   \<and> path_exists env (parse_path rel_path_str)
                then loaded(path_str (parse_path rel_path_str) \<mapsto> state)
                else loaded))"

fun load_loop ::
  "config_env \<Rightarrow> ppath \<Rightarrow> (string \<times> string) list \<Rightarrow> item_states \<Rightarrow> item_states" where
  "load_loop env project_root [] loaded = loaded"
| "load_loop env project_root ((rel_path_str, state) # rest) loaded =
     load_loop env project_root rest (load_entry env project_root rel_path_str state loaded)"

text \<open>
  \<open>load_project_config\<close>: the dictionary it returns and the dynamic exclusions it leaves.
  The exclusions are cleared first and stay empty on every early return.
\<close>

definition load_project_config ::
  "config_env \<Rightarrow> ppath option \<Rightarrow> project_config option \<Rightarrow> item_states \<times> string list" where
  "load_project_config env project_root config_file =
     (case project_root of
        None \<Rightarrow> (Map.empty, [])
      | Some rt \<Rightarrow>
          if \<not> is_dir (cfg_fs env) rt then (Map.empty, [])
          else if \<not> config_path_ok env then (Map.empty, [])
          else (case config_file of
                  None \<Rightarrow> (Map.empty, [])
                | Some config_data \<Rightarrow>
                    if \<not> read_ok env then (Map.empty, [])
                    else (load_loop env rt (folder_states config_data) Map.empty,
                          dynamic_file_exclusions config_data)))"

text \<open>
  A key of the store as the scan writes it: the string of an absolute path in normal
  form that \<open>resolve\<close> leaves as it is.
\<close>

definition tracked_key :: "fs_env \<Rightarrow> string \<Rightarrow> bool" where
  "tracked_key fs k \<longleftrightarrow>
     path_str (parse_path k) = k \<and> is_absolute (parse_path k)
     \<and> resolve fs (parse_path k) = Some (parse_path k)"

text \<open>A store as the scan and the toggles leave it, given by its items.\<close>

definition tracked_store :: "fs_env \<Rightarrow> (string \<times> string) list \<Rightarrow> bool" where
  "tracked_store fs store_items \<longleftrightarrow>
     distinct (map fst store_items)
     \<and> list_all (\<lambda>(k, s). tracked_key fs k \<and> (s = S_CHECKED \<or> s = S_UNCHECKED)) store_items"

text \<open>Storing one item in a dictionary, and the components a parsed path can have.\<close>

definition store_put :: "string \<times> string \<Rightarrow> item_states \<Rightarrow> item_states" where
  "store_put ks m = m(fst ks \<mapsto> snd ks)"

definition wf_parts :: "string list \<Rightarrow> bool" where
  "wf_parts ps \<longleftrightarrow> (\<forall>x \<in> set ps. x \<noteq> [] \<and> x \<noteq> ''.'' \<and> CHR ''/'' \<notin> set x)"

section \<open>A small project for the examples\<close>

definition ex_root :: ppath where "ex_root = PPath True [''proj'']"
definition ex_src :: ppath where "ex_src = PPath True [''proj'', ''src'']"
definition ex_vendor :: ppath where "ex_vendor = PPath True [''proj'', ''src'', ''vendor'']"
definition ex_lib :: ppath where "ex_lib = PPath True [''proj'', ''src'', ''vendor'', ''lib'']"
definition ex_other :: ppath where "ex_other = PPath True [''elsewhere'']"

definition ex_fs :: fs_env where
  "ex_fs = \<lparr>is_dir = (\<lambda>p. p \<in> set [ex_root, ex_src, ex_vendor, ex_lib, ex_other]),
            resolve = (\<lambda>p. Some (PPath True (parts p)))\<rparr>"

definition ex_photo :: ppath where "ex_photo = PPath True [''proj'', ''PHOTO.PNG'']"

definition ex_read_file :: "ppath \<Rightarrow> byte list option" where
  "ex_read_file = (\<lambda>p. if p = ex_photo then Some [72, 105] else None)"

definition ex_states :: item_states where
  "ex_states = [''/proj'' \<mapsto> S_CHECKED, ''/proj/src'' \<mapsto> S_CHECKED,
                ''/proj/src/vendor'' \<mapsto> S_UNCHECKED, ''/proj/src/vendor/lib'' \<mapsto> S_CHECKED]"




text \<open>
  A scanned tree: \<open>secret\<close> could not be listed and carries the error placeholder of the
  scan, which has no stored state; \<open>vendor\<close> is unchecked.
\<close>

definition ex_tree :: tree_item where
  "ex_tree =
     Item ''/proj'' []
       [Item ''/proj/docs'' [] [],
        Item ''/proj/secret'' [] [Item ''error_secret_/proj/secret'' [] []],
        Item ''/proj/src'' []
          [Item ''/proj/src/vendor'' [] [Item ''/proj/src/vendor/lib'' [] []]]]"

definition ex_tree_states :: item_states where
  "ex_tree_states =
     [''/proj'' \<mapsto> S_CHECKED, ''/proj/docs'' \<mapsto> S_CHECKED, ''/proj/secret'' \<mapsto> S_CHECKED,
      ''/proj/src'' \<mapsto> S_CHECKED, ''/proj/src/vendor'' \<mapsto> S_UNCHECKED,
      ''/proj/src/vendor/lib'' \<mapsto> S_CHECKED]"

text \<open>
  A project whose root is unchecked. Its directory name has 41 characters; the empty
  archive that \<open>tarfile\<close> writes for it, which stores the archive's file name in its gzip
  header, takes 118 bytes.
\<close>

definition ex_long_root :: ppath where
  "ex_long_root = PPath True [''acme_internal_tools_monorepo_working_copy'']"

definition ex_backup_env :: backup_env where
  "ex_backup_env =
     \<lparr>backup_fs = \<lparr>is_dir = (\<lambda>p. p = ex_long_root),
                    resolve = (\<lambda>p. Some (PPath True (parts p)))\<rparr>,
      log_dir_ok = True, tar_open_ok = True, add_ok = (\<lambda>p. True), archive_st_size = 118\<rparr>"

definition ex_backup_states :: item_states where
  "ex_backup_states = [''/acme_internal_tools_monorepo_working_copy'' \<mapsto> S_UNCHECKED]"

definition ex_backup_tree :: walk_tree where
  "ex_backup_tree = WalkDir ''acme_internal_tools_monorepo_working_copy'' [''README.md''] []"

text \<open>A store with a directory outside the root, and two dynamic exclusions.\<close>

definition ex_config_env :: config_env where
  "ex_config_env = \<lparr>cfg_fs = ex_fs, path_exists = (\<lambda>p. True), config_path_ok = True,
                    write_ok = True, read_ok = True\<rparr>"

definition ex_store_items :: "(string \<times> string) list" where
  "ex_store_items =
     [(''/proj'', S_CHECKED), (''/proj/src'', S_CHECKED),
      (''/proj/src/vendor'', S_UNCHECKED), (''/elsewhere'', S_CHECKED)]"


section \<open>Verification: effective selection\<close>

lemma S_CHECKED_neq [simp]: "S_CHECKED \<noteq> S_UNCHECKED" "S_UNCHECKED \<noteq> S_CHECKED"
  by (simp_all add: S_CHECKED_def S_UNCHECKED_def)

lemmas ex_defs =
  ex_root_def ex_src_def ex_vendor_def ex_lib_def ex_other_def ex_fs_def ex_states_def

lemma ex_binary: "binary_states ex_states"
  by (auto simp: binary_states_def ex_states_def split: if_splits)

lemma at_or_under_refl [simp]: "at_or_under p p"
  by (simp add: at_or_under_def)

lemma relative_to_None: "relative_to p r = None \<longleftrightarrow> \<not> at_or_under p r"
  by (simp add: relative_to_def at_or_under_def)

lemma chain_self: "chain r r = [r]"
  by (simp add: chain_def)

lemma parent_fixed: "parent p = p \<longleftrightarrow> parts p = []"
  by (cases p, rename_tac a xs, case_tac xs rule: rev_cases) (auto simp: parent_def)

lemma strict_under:
  assumes "at_or_under p r" "p \<noteq> r"
  shows "length (parts r) < length (parts p)"
proof -
  from assms have "prefix (parts r) (parts p)" "parts r \<noteq> parts p"
    by (auto simp: at_or_under_def ppath.expand)
  then show ?thesis
    by (metis prefix_length_less strict_prefix_def)
qed

lemma chain_step:
  assumes "at_or_under p r" "p \<noteq> r"
  shows "chain r p = chain r (parent p) @ [p]" "at_or_under (parent p) r" "parent p \<noteq> p"
proof -
  have lt: "length (parts r) < length (parts p)" using assms by (rule strict_under)
  then have ne: "parts p \<noteq> []" by auto
  then show "parent p \<noteq> p" by (simp add: parent_fixed)
  from assms have pre: "prefix (parts r) (parts p)" by (simp add: at_or_under_def)
  have "prefix (parts r) (butlast (parts p))"
    using pre lt ne by (metis append_butlast_last_id prefix_snoc less_irrefl)
  then show "at_or_under (parent p) r" using assms by (simp add: at_or_under_def parent_def)
  have "[length (parts r) ..< Suc (length (parts p))] =
        [length (parts r) ..< length (parts p)] @ [length (parts p)]"
    using lt by simp
  moreover have "Suc (length (parts p) - 1) = length (parts p)" using ne by simp
  moreover have "\<forall>n \<in> set [length (parts r) ..< length (parts p)].
      take n (butlast (parts p)) = take n (parts p)"
    by (simp add: take_butlast)
  ultimately show "chain r p = chain r (parent p) @ [p]"
    by (simp add: chain_def parent_def)
qed

lemma between_in_chain:
  assumes "at_or_under d r" "at_or_under p d"
  shows "d \<in> set (chain r p)" "at_or_under p r"
proof -
  from assms have pre: "prefix (parts r) (parts d)" "prefix (parts d) (parts p)"
    and ab: "is_absolute d = is_absolute p" "is_absolute p = is_absolute r"
    by (auto simp: at_or_under_def)
  from pre show "at_or_under p r" using ab by (auto simp: at_or_under_def)
  have "take (length (parts d)) (parts p) = parts d"
    using pre(2) by (auto simp: prefix_def)
  then have "d = PPath (is_absolute p) (take (length (parts d)) (parts p))"
    using ab by (cases d) simp
  moreover have "length (parts r) \<le> length (parts d)" "length (parts d) \<le> length (parts p)"
    using pre by (auto simp: prefix_def)
  then have "length (parts d) \<in> set [length (parts r) ..< Suc (length (parts p))]"
    by auto
  ultimately show "d \<in> set (chain r p)"
    unfolding chain_def set_map by (rule image_eqI)
qed

lemma walk_root:
  "selection_walk states r r \<longleftrightarrow>
     states (path_str r) = None \<or> states (path_str r) = Some S_CHECKED"
  by (subst selection_walk.simps) (simp split: option.splits)

lemma walk_step:
  "p \<noteq> r \<Longrightarrow> parent p \<noteq> p \<Longrightarrow>
   selection_walk states r p \<longleftrightarrow>
     states (path_str p) \<noteq> Some S_UNCHECKED \<and> states (path_str p) \<noteq> None
     \<and> selection_walk states r (parent p)"
  by (subst selection_walk.simps) simp

lemma walk_iff:
  "at_or_under p r \<Longrightarrow>
   selection_walk states r p \<longleftrightarrow> (\<forall>d \<in> set (chain r p). walk_ok states r d)"
proof (induction states r p rule: selection_walk.induct)
  case (1 states r p)
  show ?case
  proof (cases "p = r")
    case True
    then show ?thesis
      by (auto simp: walk_root chain_self walk_ok_def)
  next
    case False
    note step = chain_step[OF "1.prems" False]
    have ih: "selection_walk states r (parent p) \<longleftrightarrow>
        (\<forall>d \<in> set (chain r (parent p)). walk_ok states r d)"
      if "states (path_str p) \<noteq> Some S_UNCHECKED" "states (path_str p) \<noteq> None"
      using "1.IH" that False step by blast
    have here: "walk_ok states r p \<longleftrightarrow>
       states (path_str p) \<noteq> Some S_UNCHECKED \<and> states (path_str p) \<noteq> None"
      using False by (simp add: walk_ok_def)
    show ?thesis
      unfolding walk_step[OF False step(3)] step(1) using ih here by auto
  qed
qed

lemma walk_no_unchecked:
  assumes "at_or_under p r" "selection_walk states r p" "d \<in> set (chain r p)"
  shows "states (path_str d) \<noteq> Some S_UNCHECKED"
  using assms by (simp add: walk_iff walk_ok_def)

lemma selected_unfold:
  assumes "is_dir fs R" "resolve fs P = Some p" "resolve fs R = Some r"
  shows "is_path_effectively_selected fs states P (Some R) \<longleftrightarrow>
           at_or_under p r \<and> selection_walk states r p"
  using assms by (auto simp: is_path_effectively_selected_def relative_to_None)

lemma selected_imp_walk:
  assumes "is_path_effectively_selected fs states P (Some R)"
    and "resolve fs P = Some p" "resolve fs R = Some r"
  shows "at_or_under p r \<and> selection_walk states r p"
  using assms
  by (auto simp: is_path_effectively_selected_def relative_to_None split: if_splits)

text \<open>
  Claim C1. For a project root that is an existing directory, with \<open>r\<close> and \<open>p\<close> the resolved
  root and the resolved path, and a store that holds only the two state constants:
  \<open>is_path_effectively_selected\<close> is true exactly when \<open>p\<close> lies at or under \<open>r\<close> and every
  directory of the chain from \<open>r\<close> down to \<open>p\<close> is explicitly \<open>Checked\<close>, where a missing
  state counts as \<open>Checked\<close> for the root only. Hence an \<open>Unchecked\<close> directory anywhere on
  the chain makes the result false, whatever the state stored for \<open>p\<close> itself.
\<close>

theorem effective_selection_iff_chain_checked:
  assumes "binary_states states"
    and "is_dir fs R" and "resolve fs P = Some p" and "resolve fs R = Some r"
  shows "(is_path_effectively_selected fs states P (Some R) \<longleftrightarrow>
           at_or_under p r \<and> (\<forall>d \<in> set (chain r p). chain_ok states r d))
         \<and> (\<forall>d \<in> set (chain r p).
               at_or_under p r \<and> states (path_str d) = Some S_UNCHECKED \<longrightarrow>
               \<not> is_path_effectively_selected fs states P (Some R))"
proof -
  have bin: "\<And>k. states k \<noteq> Some S_UNCHECKED \<and> states k \<noteq> None \<longleftrightarrow> states k = Some S_CHECKED"
    using assms(1) by (auto simp: binary_states_def)
  have sel: "is_path_effectively_selected fs states P (Some R) \<longleftrightarrow>
           at_or_under p r \<and> selection_walk states r p"
    using assms(2-4) by (rule selected_unfold)
  show ?thesis
  proof (cases "at_or_under p r")
    case False
    then show ?thesis by (simp add: sel)
  next
    case True
    have "walk_ok states r d \<longleftrightarrow> chain_ok states r d" for d
      using bin[of "path_str d"] by (auto simp: walk_ok_def chain_ok_def)
    then have "selection_walk states r p \<longleftrightarrow> (\<forall>d \<in> set (chain r p). chain_ok states r d)"
      by (simp add: walk_iff[OF True])
    moreover have "\<forall>d \<in> set (chain r p). states (path_str d) = Some S_UNCHECKED \<longrightarrow>
               \<not> selection_walk states r p"
      using walk_no_unchecked[OF True] by blast
    ultimately show ?thesis
      unfolding sel using True by blast
  qed
qed

theorem effective_selection_iff_chain_checked_witness:
  "binary_states ex_states \<and> is_dir ex_fs ex_root
   \<and> resolve ex_fs ex_src = Some ex_src \<and> resolve ex_fs ex_lib = Some ex_lib
   \<and> resolve ex_fs ex_root = Some ex_root
   \<and> is_path_effectively_selected ex_fs ex_states ex_src (Some ex_root)
   \<and> \<not> is_path_effectively_selected ex_fs ex_states ex_lib (Some ex_root)"
proof -
  have h: "binary_states ex_states" "is_dir ex_fs ex_root" "resolve ex_fs ex_src = Some ex_src"
    "resolve ex_fs ex_lib = Some ex_lib" "resolve ex_fs ex_root = Some ex_root"
    by (simp_all add: ex_binary) (simp_all add: ex_defs)
  have "is_path_effectively_selected ex_fs ex_states ex_src (Some ex_root)"
    using effective_selection_iff_chain_checked[OF h(1,2,3,5)]
    by (simp add: ex_defs at_or_under_def chain_def chain_ok_def path_str_def upt_rec)
  moreover have "\<not> is_path_effectively_selected ex_fs ex_states ex_lib (Some ex_root)"
    using effective_selection_iff_chain_checked[OF h(1,2,4,5)]
    by (simp add: ex_defs at_or_under_def chain_def chain_ok_def path_str_def upt_rec)
  ultimately show ?thesis using h by simp
qed



text \<open>
  Claim C3. Toggling a tracked directory \<open>d\<close> (an absolute path at or under the resolved
  root) whose state is not \<open>Unchecked\<close> stores
  \<open>Unchecked\<close> for it; afterwards no path at or under \<open>d\<close> is effectively selected, and the
  store is unchanged at every key but the one of \<open>d\<close>.
\<close>

theorem toggle_unchecks_subtree_lazily:
  assumes "is_absolute d" and "states (path_str d) = Some v" and "v \<noteq> S_UNCHECKED"
    and "\<not> sublist ''indicator'' element_clicked"
    and "resolve fs P = Some p" and "resolve fs R = Some r"
    and "at_or_under d r" and "at_or_under p d"
  shows "\<not> is_path_effectively_selected fs
             (on_tree_item_click states element_clicked (path_str d)) P (Some R)
         \<and> on_tree_item_click states element_clicked (path_str d) (path_str d) = Some S_UNCHECKED
         \<and> (\<forall>k. k \<noteq> path_str d \<longrightarrow>
               on_tree_item_click states element_clicked (path_str d) k = states k)"
proof -
  let ?states' = "on_tree_item_click states element_clicked (path_str d)"
  have ne: "path_str d \<noteq> []"
    using assms(1) by (simp add: path_str_def)
  have new: "?states' = states(path_str d \<mapsto> S_UNCHECKED)"
    using assms(2-4) ne by (simp add: on_tree_item_click_def)
  have "\<not> is_path_effectively_selected fs ?states' P (Some R)"
  proof
    assume "is_path_effectively_selected fs ?states' P (Some R)"
    then have "at_or_under p r" "selection_walk ?states' r p"
      using selected_imp_walk assms(5,6) by blast+
    then have "?states' (path_str d) \<noteq> Some S_UNCHECKED"
      using between_in_chain(1)[OF assms(7,8)] by (rule walk_no_unchecked)
    then show False by (simp add: new)
  qed
  then show ?thesis by (simp add: new)
qed

theorem toggle_unchecks_subtree_lazily_witness:
  "is_absolute ex_src \<and> ex_states (path_str ex_src) = Some S_CHECKED
   \<and> \<not> sublist ''indicator'' ''text''
   \<and> at_or_under ex_src ex_root \<and> at_or_under ex_src ex_src
   \<and> is_path_effectively_selected ex_fs ex_states ex_src (Some ex_root)
   \<and> \<not> is_path_effectively_selected ex_fs
         (on_tree_item_click ex_states ''text'' (path_str ex_src)) ex_src (Some ex_root)
   \<and> on_tree_item_click ex_states ''text'' (path_str ex_src) ''/proj/src/vendor/lib''
       = Some S_CHECKED"
proof -
  have h: "is_absolute ex_src" "ex_states (path_str ex_src) = Some S_CHECKED"
    "S_CHECKED \<noteq> S_UNCHECKED" "\<not> sublist ''indicator'' ''text''"
    "resolve ex_fs ex_src = Some ex_src" "resolve ex_fs ex_root = Some ex_root"
    "at_or_under ex_src ex_root" "at_or_under ex_src ex_src"
    by (simp_all add: ex_defs path_str_def at_or_under_def sublist_Cons_right)
  have sel: "is_path_effectively_selected ex_fs ex_states ex_src (Some ex_root)"
    by (simp add: ex_defs is_path_effectively_selected_def relative_to_def selection_walk.simps
          path_str_def parent_def)
  have k: "''/proj/src/vendor/lib'' \<noteq> path_str ex_src" by (simp add: ex_defs path_str_def)
  show ?thesis
    using toggle_unchecks_subtree_lazily[where d = ex_src and states = ex_states
        and v = S_CHECKED and element_clicked = "''text''" and fs = ex_fs
        and P = ex_src and p = ex_src and R = ex_root and r = ex_root, OF h] h sel k
    by (simp add: ex_states_def)
qed

section \<open>Verification: filename exclusion\<close>

lemma exclusion_loop_iff:
  "exclusion_loop ps filename \<longleftrightarrow> (\<exists>p \<in> set ps. p \<noteq> [] \<and> pattern_matches p filename)"
  by (induction ps) (auto simp: pattern_matches_def)

lemma pyc_excluded: "should_exclude_file dyn ''foo.pyc''"
  by (simp add: should_exclude_file_def PREDEFINED_EXCLUDED_FILENAMES_def startswith_def
        endswith_def suffix_def)

lemma pyc_bak_not_matched: "\<not> pattern_matches ''*.pyc'' ''foo.pyc.bak''"
  by (simp add: pattern_matches_def startswith_def endswith_def suffix_to_prefix)

lemma pyc_bak_kept: "\<not> should_exclude_file [] ''foo.pyc.bak''"
  by (simp add: should_exclude_file_def PREDEFINED_EXCLUDED_FILENAMES_def startswith_def
        endswith_def suffix_to_prefix)

lemma exact_pattern_only:
  "pattern_matches ''package-lock.json'' filename \<longleftrightarrow> filename = ''package-lock.json''"
  by (auto simp: pattern_matches_def startswith_def)

text \<open>
  Claim C2. For every file name (a non-empty string), \<open>should_exclude_file\<close> is true exactly
  when some pattern of the predefined or the dynamic set matches it, where a pattern that
  starts with \<open>*.\<close> matches the names ending with the pattern's suffix and any other
  pattern matches the equal name only. So \<open>foo.pyc\<close> is excluded by \<open>*.pyc\<close>, \<open>foo.pyc.bak\<close>
  is not, and \<open>package-lock.json\<close> matches that literal name only.
\<close>

theorem should_exclude_file_iff_pattern_matches:
  assumes "filename \<noteq> []"
  shows "(should_exclude_file dyn filename \<longleftrightarrow>
           (\<exists>p \<in> set PREDEFINED_EXCLUDED_FILENAMES \<union> set dyn. pattern_matches p filename))
         \<and> pattern_matches ''*.pyc'' ''foo.pyc'' \<and> should_exclude_file dyn ''foo.pyc''
         \<and> \<not> pattern_matches ''*.pyc'' ''foo.pyc.bak'' \<and> \<not> should_exclude_file [] ''foo.pyc.bak''
         \<and> (pattern_matches ''package-lock.json'' filename
              \<longleftrightarrow> filename = ''package-lock.json'')"
proof -
  have "pattern_matches [] filename = False"
    using assms by (auto simp: pattern_matches_def startswith_def)
  then have "(p \<noteq> [] \<and> pattern_matches p filename) = pattern_matches p filename" for p
    by (cases "p = []") auto
  then have "should_exclude_file dyn filename \<longleftrightarrow>
           (\<exists>p \<in> set PREDEFINED_EXCLUDED_FILENAMES \<union> set dyn. pattern_matches p filename)"
    by (simp add: should_exclude_file_def exclusion_loop_iff)
  moreover have "pattern_matches ''*.pyc'' ''foo.pyc''"
    by (simp add: pattern_matches_def startswith_def endswith_def suffix_def)
  ultimately show ?thesis
    using pyc_excluded pyc_bak_not_matched pyc_bak_kept exact_pattern_only by blast
qed

theorem should_exclude_file_iff_pattern_matches_witness:
  "''notes.swp'' \<noteq> [] \<and> should_exclude_file [''*.log''] ''notes.swp''
   \<and> ''build.log'' \<noteq> [] \<and> should_exclude_file [''*.log''] ''build.log''"
proof -
  have "\<exists>p \<in> set PREDEFINED_EXCLUDED_FILENAMES \<union> set [''*.log''].
          pattern_matches p ''notes.swp''"
    by (simp add: PREDEFINED_EXCLUDED_FILENAMES_def pattern_matches_def startswith_def
          endswith_def suffix_def)
  moreover have "\<exists>p \<in> set PREDEFINED_EXCLUDED_FILENAMES \<union> set [''*.log''].
          pattern_matches p ''build.log''"
    by (simp add: PREDEFINED_EXCLUDED_FILENAMES_def pattern_matches_def startswith_def
          endswith_def suffix_def)
  ultimately show ?thesis
    using should_exclude_file_iff_pattern_matches[of "''notes.swp''" "[''*.log'']"]
      should_exclude_file_iff_pattern_matches[of "''build.log''" "[''*.log'']"]
    by simp
qed

section \<open>Verification: binary files\<close>

text \<open>
  Claim C9, as stated, fails on a readable text file whose suffix is written in upper
  case: the source lower-cases the compound suffix before the lookup.
\<close>

theorem is_binary_upper_case_suffix_counterexample:
  "is_binary ex_read_file ex_photo \<and> \<not> is_binary_as_specified ex_read_file ex_photo"
proof -
  have s: "concat (path_suffixes (name ex_photo)) = ''.PNG''"
    by (simp add: ex_photo_def name_def path_suffixes_def endswith_def suffix_to_prefix)
  have l: "lower ''.PNG'' = ''.png''"
    by (simp add: lower_def lower_char_def)
  have "is_binary ex_read_file ex_photo"
    by (simp add: is_binary_def s l FORCE_BINARY_EXTENSIONS_FOR_DUMP_def)
  moreover have "\<not> is_binary_as_specified ex_read_file ex_photo"
    by (simp add: is_binary_as_specified_def s ex_read_file_def
          FORCE_BINARY_EXTENSIONS_FOR_DUMP_def)
  ultimately show ?thesis by simp
qed

text \<open>
  Claim C9, amended. \<open>is_binary\<close> is true exactly when the lower-cased compound suffix of
  the file's name is in the binary extension set, or the file cannot be read, or its
  first 1024 bytes contain a zero byte.
\<close>

theorem is_binary_iff_lowered_suffix_or_sniff:
  "is_binary read_file file_path \<longleftrightarrow>
     lower (concat (path_suffixes (name file_path))) \<in> set FORCE_BINARY_EXTENSIONS_FOR_DUMP
     \<or> read_file file_path = None
     \<or> (\<exists>content. read_file file_path = Some content \<and> 0 \<in> set (take 1024 content))"
  by (auto simp: is_binary_def split: option.splits)

theorem is_binary_iff_lowered_suffix_or_sniff_witness:
  "is_binary ex_read_file (PPath True [''proj'', ''locked.txt''])
   \<and> \<not> is_binary (\<lambda>p. Some [72, 105]) (PPath True [''proj'', ''notes.txt''])
   \<and> is_binary (\<lambda>p. Some [72, 0, 105]) (PPath True [''proj'', ''notes.txt''])"
proof -
  have s: "lower (concat (path_suffixes (name (PPath True [''proj'', ''notes.txt''])))) = ''.txt''"
    "lower (concat (path_suffixes (name (PPath True [''proj'', ''locked.txt''])))) = ''.txt''"
    by (simp_all add: name_def path_suffixes_def endswith_def suffix_to_prefix lower_def
          lower_char_def)
  have n: "''.txt'' \<notin> set FORCE_BINARY_EXTENSIONS_FOR_DUMP"
    by (simp add: FORCE_BINARY_EXTENSIONS_FOR_DUMP_def)
  show ?thesis
    using is_binary_iff_lowered_suffix_or_sniff[of ex_read_file "PPath True [''proj'', ''locked.txt'']"]
      is_binary_iff_lowered_suffix_or_sniff[of "\<lambda>p. Some [72, 105]"
        "PPath True [''proj'', ''notes.txt'']"]
      is_binary_iff_lowered_suffix_or_sniff[of "\<lambda>p. Some [72, 0, 105]"
        "PPath True [''proj'', ''notes.txt'']"]
    by (simp add: s n ex_read_file_def ex_photo_def)
qed

section \<open>Verification: the directory scan\<close>

lemma final_state_simps [simp]:
  "final_state (Inr st) = st" "final_state (Inl (e, st)) = st"
  by (simp_all add: final_state_def)


lemma no_marker_append [simp]:
  "no_marker (es @ fs) \<longleftrightarrow> no_marker es \<and> no_marker fs"
  by (auto simp: no_marker_def)

lemma no_marker_error [simp]: "no_marker [error_entry cp piid]"
  by (simp add: no_marker_def error_entry_def)















section \<open>Verification: the display projection\<close>

lemma count_children_eq:
  "count_children states cs c r =
     (c + length (filter (\<lambda>k. states k = Some S_CHECKED) cs),
      r + length (filter (\<lambda>k. states k \<noteq> None) cs))"
  by (induction cs arbitrary: c r) auto

lemma no_children: "project_children states [] = FullyChecked"
  by (simp add: project_children_def tracked_children_def)

lemma all_checked_iff:
  "length (filter (\<lambda>k. states k = Some S_CHECKED) cs) = length (filter (\<lambda>k. states k \<noteq> None) cs)
     \<longleftrightarrow> (\<forall>k \<in> set cs. states k \<noteq> None \<longrightarrow> states k = Some S_CHECKED)"
proof (induction cs)
  case Nil
  then show ?case by simp
next
  case (Cons a cs)
  have le: "length (filter (\<lambda>k. states k = Some S_CHECKED) cs) \<le> length (filter (\<lambda>k. states k \<noteq> None) cs)"
    by (induction cs) auto
  show ?case using Cons le by auto
qed

lemma none_checked_iff:
  "length (filter (\<lambda>k. states k = Some S_CHECKED) cs) = 0
     \<longleftrightarrow> (\<forall>k \<in> set cs. states k \<noteq> Some S_CHECKED)"
  by (simp add: filter_empty_conv)

lemma tracked_empty_iff:
  "length (filter (\<lambda>k. states k \<noteq> None) cs) = 0 \<longleftrightarrow> tracked_children states cs = []"
  by (simp add: tracked_children_def)

lemma glyph_children:
  "(case count_children states cs 0 0 of
      (c, r) \<Rightarrow> if r = 0 then GLYPH_CHECKED else if c = r then GLYPH_CHECKED
                else if c = 0 \<and> r > 0 then GLYPH_TRISTATE else GLYPH_TRISTATE)
   = glyph_of (project_children states cs)"
proof -
  have all: "(\<forall>c \<in> set (tracked_children states cs). states c = Some S_CHECKED)
      \<longleftrightarrow> length (filter (\<lambda>k. states k = Some S_CHECKED) cs)
            = length (filter (\<lambda>k. states k \<noteq> None) cs)"
    unfolding all_checked_iff by (auto simp: tracked_children_def)
  show ?thesis
  proof (cases "tracked_children states cs = []")
    case True
    then show ?thesis
      using tracked_empty_iff[of states cs]
      by (simp add: count_children_eq project_children_def)
  next
    case False
    then have r: "length (filter (\<lambda>k. states k \<noteq> None) cs) \<noteq> 0"
      using tracked_empty_iff[of states cs] by simp
    show ?thesis
    proof (cases "\<forall>c \<in> set (tracked_children states cs). states c = Some S_CHECKED")
      case True
      then show ?thesis using False r all
        by (simp add: count_children_eq project_children_def)
    next
      case nall: False
      then have "length (filter (\<lambda>k. states k = Some S_CHECKED) cs)
            \<noteq> length (filter (\<lambda>k. states k \<noteq> None) cs)"
        using all by simp
      then show ?thesis using False r nall
        by (auto simp: count_children_eq project_children_def)
    qed
  qed
qed

lemma glyph_amended:
  assumes "flag = (\<exists>a \<in> set anc. off states a)"
  shows "current_visual_glyph states i cs flag = glyph_of (project_amended states anc i cs)"
proof (cases "flag \<or> item_explicit_state states i = S_UNCHECKED")
  case True
  then have "off states i \<or> (\<exists>a \<in> set anc. off states a)"
    using assms by (auto simp: off_def item_explicit_state_def split: option.splits)
  then show ?thesis using True
    by (simp add: current_visual_glyph_def project_amended_def)
next
  case False
  then have n: "\<not> (off states i \<or> (\<exists>a \<in> set anc. off states a))"
    using assms by (auto simp: off_def item_explicit_state_def split: option.splits)
  show ?thesis
  proof (cases "cs = []")
    case True
    then show ?thesis using False n
      by (simp add: current_visual_glyph_def project_amended_def no_children)
  next
    case ne: False
    have "current_visual_glyph states i cs flag =
       (case count_children states cs 0 0 of
          (c, r) \<Rightarrow> if r = 0 then GLYPH_CHECKED else if c = r then GLYPH_CHECKED
                else if c = 0 \<and> r > 0 then GLYPH_TRISTATE else GLYPH_TRISTATE)"
      using False ne unfolding current_visual_glyph_def by simp
    then show ?thesis using n
      by (simp only: glyph_children project_amended_def if_False)
  qed
qed

lemma flag_amended:
  "flag = (\<exists>a \<in> set anc. off states a) \<Longrightarrow>
   node_is_effectively_unchecked_for_children states i flag
     = (\<exists>a \<in> set (i # anc). off states a)"
  by (auto simp: node_is_effectively_unchecked_for_children_def off_def item_explicit_state_def
        split: option.splits)

lemma update_eq_projections:
  "flag = (\<exists>a \<in> set anc. off states a) \<Longrightarrow>
   update_node_visual_recursive states t flag = projections project_amended states anc t"
proof (induction t arbitrary: flag anc)
  case (Item i tags cs)
  have kids: "update_node_visual_recursive states c
          (node_is_effectively_unchecked_for_children states i flag)
        = projections project_amended states (i # anc) c" if "c \<in> set cs" for c
    using Item.IH[OF that] flag_amended[OF Item.prems] by blast
  have m: "map (\<lambda>c. update_node_visual_recursive states c
                 (node_is_effectively_unchecked_for_children states i flag)) cs
        = map (projections project_amended states (i # anc)) cs"
    using kids by (rule map_cong[OF refl])
  show ?case
    by (simp only: update_node_visual_recursive.simps projections.simps m
          glyph_amended[OF Item.prems])
qed

lemmas glyph_defs = GLYPH_CHECKED_def GLYPH_UNCHECKED_def GLYPH_TRISTATE_def

lemma ex_tree_refreshed:
  "projections project_amended ex_tree_states [] ex_tree =
     [(''/proj'', ''[X]''), (''/proj/docs'', ''[X]''), (''/proj/secret'', ''[X]''),
      (''error_secret_/proj/secret'', ''[ ]''), (''/proj/src'', ''[/]''),
      (''/proj/src/vendor'', ''[ ]''), (''/proj/src/vendor/lib'', ''[ ]'')]"
  by (simp add: ex_tree_def ex_tree_states_def project_amended_def project_children_def
        tracked_children_def off_def glyph_defs)

text \<open>
  Claim C5, as stated, fails at an item without a stored state, such as the error
  placeholder the scan puts under a directory it cannot list: the refresh reads a missing
  state as \<open>Unchecked\<close> and shows the item unchecked, where the rule as stated shows it
  checked (no ancestor is \<open>Unchecked\<close>, no child is tracked).
\<close>

theorem untracked_item_projection_counterexample:
  "refresh_tree_visuals ex_tree_states (Some ex_tree) =
     [(''/proj'', ''[X]''), (''/proj/docs'', ''[X]''), (''/proj/secret'', ''[X]''),
      (''error_secret_/proj/secret'', ''[ ]''), (''/proj/src'', ''[/]''),
      (''/proj/src/vendor'', ''[ ]''), (''/proj/src/vendor/lib'', ''[ ]'')]
   \<and> projections project_as_specified ex_tree_states [] ex_tree =
     [(''/proj'', ''[X]''), (''/proj/docs'', ''[X]''), (''/proj/secret'', ''[X]''),
      (''error_secret_/proj/secret'', ''[X]''), (''/proj/src'', ''[/]''),
      (''/proj/src/vendor'', ''[ ]''), (''/proj/src/vendor/lib'', ''[ ]'')]"
proof -
  have "refresh_tree_visuals ex_tree_states (Some ex_tree)
          = projections project_amended ex_tree_states [] ex_tree"
    by (simp add: refresh_tree_visuals_def update_eq_projections)
  moreover have "projections project_as_specified ex_tree_states [] ex_tree =
     [(''/proj'', ''[X]''), (''/proj/docs'', ''[X]''), (''/proj/secret'', ''[X]''),
      (''error_secret_/proj/secret'', ''[X]''), (''/proj/src'', ''[/]''),
      (''/proj/src/vendor'', ''[ ]''), (''/proj/src/vendor/lib'', ''[ ]'')]"
    by (simp add: ex_tree_def ex_tree_states_def project_as_specified_def project_children_def
          tracked_children_def glyph_defs)
  ultimately show ?thesis by (simp add: ex_tree_refreshed)
qed

text \<open>
  Claim C5, amended. Every item the refresh visits (the items not tagged \<open>error_node\<close>, from
  the refresh root down) is shown by the tri-state rule, where a missing state counts as
  \<open>Unchecked\<close>: unchecked when the item or one of its ancestors up to the refresh root is
  \<open>Unchecked\<close> or has no stored state; otherwise checked when it has no tracked child or
  all its tracked children are \<open>Checked\<close>, and mixed in every other case, also when no
  tracked child is \<open>Checked\<close>.
\<close>

theorem refresh_tree_visuals_tri_state:
  "refresh_tree_visuals states (Some t) = projections project_amended states [] t
   \<and> refresh_tree_visuals states None = []"
  by (simp add: refresh_tree_visuals_def update_eq_projections)

theorem refresh_tree_visuals_tri_state_witness:
  "refresh_tree_visuals ex_tree_states (Some ex_tree) =
     [(''/proj'', ''[X]''), (''/proj/docs'', ''[X]''), (''/proj/secret'', ''[X]''),
      (''error_secret_/proj/secret'', ''[ ]''), (''/proj/src'', ''[/]''),
      (''/proj/src/vendor'', ''[ ]''), (''/proj/src/vendor/lib'', ''[ ]'')]"
  using refresh_tree_visuals_tri_state[of ex_tree_states ex_tree] ex_tree_refreshed by simp

section \<open>Verification: backup\<close>

lemma unselected_root_adds_nothing:
  assumes "is_dir (backup_fs env) rt" "log_dir_ok env" "tar_open_ok env"
    and "\<not> is_path_effectively_selected (backup_fs env) states rt (Some rt)"
  shows "backup_project_impl env states dyn (Some rt) tree
           = \<lparr>files_added = 0, archive_on_disk = (100 \<le> archive_st_size env)\<rparr>"
  using assms by (auto simp: backup_project_impl_def)

lemma unchecked_root_not_selected:
  assumes "resolve fs rt = Some r" "states (path_str r) = Some S_UNCHECKED"
  shows "\<not> is_path_effectively_selected fs states rt (Some rt)"
  using assms
  by (auto simp: is_path_effectively_selected_def selection_walk.simps)

text \<open>
  Claim C8 holds only for an empty archive of less than 100 bytes: the source removes the
  archive under the guard \<open>st_size < 100\<close>. Here the root is unchecked, no file is added,
  and the archive of 118 bytes stays on disk.
\<close>

theorem backup_empty_archive_left_on_disk:
  "backup_project_impl ex_backup_env ex_backup_states [] (Some ex_long_root) ex_backup_tree
     = \<lparr>files_added = 0, archive_on_disk = True\<rparr>"
proof -
  have "\<not> is_path_effectively_selected (backup_fs ex_backup_env) ex_backup_states
          ex_long_root (Some ex_long_root)"
    by (rule unchecked_root_not_selected[where r = ex_long_root])
       (simp_all add: ex_backup_env_def ex_long_root_def ex_backup_states_def path_str_def)
  then show ?thesis
    by (subst unselected_root_adds_nothing) (simp_all add: ex_backup_env_def)
qed

theorem backup_empty_archive_left_on_disk_witness:
  "files_added (backup_project_impl ex_backup_env ex_backup_states [] (Some ex_long_root)
                  ex_backup_tree) = 0
   \<and> archive_on_disk (backup_project_impl ex_backup_env ex_backup_states [] (Some ex_long_root)
                        ex_backup_tree)"
  using backup_empty_archive_left_on_disk by simp

section \<open>Verification: persisting the configuration\<close>

lemma split_on_no_sep: "c \<notin> set x \<Longrightarrow> split_on c x = [x]"
  by (induction x) auto

lemma split_on_append: "c \<notin> set x \<Longrightarrow> split_on c (x @ c # r) = x # split_on c r"
  by (induction x) auto

lemma split_on_nonempty: "split_on c s \<noteq> []"
  by (induction s) (auto split: list.splits)

lemma split_on_pieces: "x \<in> set (split_on c s) \<Longrightarrow> c \<notin> set x"
proof (induction s arbitrary: x)
  case Nil
  then show ?case by simp
next
  case (Cons a s)
  show ?case
  proof (cases "a = c")
    case True
    then show ?thesis using Cons by auto
  next
    case False
    obtain w ws where ws: "split_on c s = w # ws"
      using split_on_nonempty[of c s] by (cases "split_on c s") auto
    then have "x = a # w \<or> x \<in> set ws" using Cons.prems False by auto
    then show ?thesis using Cons.IH ws False by auto
  qed
qed

lemma split_join:
  "\<forall>x \<in> set ps. c \<notin> set x \<Longrightarrow> ps \<noteq> [] \<Longrightarrow> split_on c (join [c] ps) = ps"
proof (induction "[c]" ps rule: join.induct)
  case 1
  then show ?case by simp
next
  case (2 x)
  then show ?case by (simp add: split_on_no_sep)
next
  case (3 x y ys)
  then show ?case by (simp add: split_on_append)
qed

lemma wf_parts_parse: "wf_parts (parts (parse_path s))"
  using split_on_pieces by (auto simp: wf_parts_def parse_path_def)

lemma filter_wf: "wf_parts ps \<Longrightarrow> filter (\<lambda>c. c \<noteq> [] \<and> c \<noteq> ''.'') ps = ps"
  by (induction ps) (auto simp: wf_parts_def)

lemma join_hd:
  "wf_parts ps \<Longrightarrow> ps \<noteq> [] \<Longrightarrow> join ''/'' ps \<noteq> [] \<and> hd (join ''/'' ps) \<noteq> CHR ''/''"
proof (induction "''/''" ps rule: join.induct)
  case 1
  then show ?case by simp
next
  case (2 x)
  then show ?case by (cases x) (auto simp: wf_parts_def)
next
  case (3 x y ys)
  then show ?case by (cases x) (auto simp: wf_parts_def)
qed

lemma startswith_slash: "startswith s ''/'' \<longleftrightarrow> s \<noteq> [] \<and> hd s = CHR ''/''"
  by (cases s) (auto simp: startswith_def)

lemma parse_path_str:
  assumes "wf_parts (parts p)"
  shows "parse_path (path_str p) = p"
proof (cases "parts p = []")
  case True
  then show ?thesis
    by (cases p) (auto simp: parse_path_def path_str_def startswith_def)
next
  case False
  have sep: "\<forall>x \<in> set (parts p). CHR ''/'' \<notin> set x"
    using assms by (simp add: wf_parts_def)
  have sj: "split_on CHR ''/'' (join ''/'' (parts p)) = parts p"
    using split_join[OF sep False] by simp
  show ?thesis
  proof (cases "is_absolute p")
    case True
    have "split_on CHR ''/'' (''/'' @ join ''/'' (parts p)) = [] # parts p"
      using sj by simp
    then show ?thesis using True filter_wf[OF assms]
      by (cases p) (simp add: parse_path_def path_str_def startswith_def)
  next
    case rel: False
    have "\<not> startswith (join ''/'' (parts p)) ''/''"
      using join_hd[OF assms False] by (simp add: startswith_slash)
    then show ?thesis using rel False sj filter_wf[OF assms]
      by (cases p) (simp add: parse_path_def path_str_def)
  qed
qed

lemma wf_parts_drop: "wf_parts ps \<Longrightarrow> wf_parts (drop n ps)"
  by (auto simp: wf_parts_def dest: in_set_dropD)

lemma saved_key_round_trip:
  assumes "tracked_key fs k"
  shows "joinpath R (saved_key R k) = parse_path k"
proof -
  let ?q = "parse_path k"
  have q: "path_str ?q = k" "is_absolute ?q" using assms by (simp_all add: tracked_key_def)
  show ?thesis
  proof (cases "is_absolute R \<and> relative_to ?q R \<noteq> None")
    case True
    then have pre: "prefix (parts R) (parts ?q)" and aR: "is_absolute R"
      by (auto simp: relative_to_def split: if_splits)
    let ?rel = "PPath False (drop (length (parts R)) (parts ?q))"
    have sk: "saved_key R k = path_str ?rel"
      using True q(2) pre by (simp add: saved_key_def relative_to_def)
    have "wf_parts (parts ?rel)" using wf_parts_parse[of k] by (simp add: wf_parts_drop)
    then have pr: "parse_path (path_str ?rel) = ?rel" by (rule parse_path_str)
    have "parts R @ drop (length (parts R)) (parts ?q) = parts ?q"
      using pre by (auto simp: prefix_def)
    then have "PPath (is_absolute R) (parts R @ parts ?rel) = ?q"
      using aR q(2) by (simp add: ppath.expand)
    moreover have "joinpath R (path_str ?rel) = PPath (is_absolute R) (parts R @ parts ?rel)"
      by (simp add: joinpath_def pr)
    ultimately show ?thesis by (simp add: sk)
  next
    case False
    then have "saved_key R k = k"
      by (auto simp: saved_key_def split: option.splits)
    then show ?thesis using q(2) by (simp add: joinpath_def)
  qed
qed

lemma load_entry_saved:
  assumes "tracked_key (cfg_fs env) k" "s = S_CHECKED \<or> s = S_UNCHECKED"
  shows "load_entry env R (saved_key R k) s m = m(k \<mapsto> s)"
proof -
  have "joinpath R (saved_key R k) = parse_path k"
    using assms(1) by (rule saved_key_round_trip)
  then have "resolve (cfg_fs env) (joinpath R (saved_key R k)) = Some (parse_path k)"
    using assms(1) by (simp add: tracked_key_def)
  moreover have "path_str (parse_path k) = k" using assms(1) by (simp add: tracked_key_def)
  ultimately show ?thesis using assms(2) by (auto simp: load_entry_def)
qed

lemma saved_key_inj:
  assumes "tracked_key fs k" "tracked_key fs k'" "saved_key R k = saved_key R k'"
  shows "k = k'"
proof -
  have "parse_path k = parse_path k'"
    using saved_key_round_trip[OF assms(1), of R] saved_key_round_trip[OF assms(2), of R]
      assms(3) by simp
  then show ?thesis using assms(1,2) by (metis tracked_key_def)
qed

lemma dict_set_new: "k \<notin> fst ` set d \<Longrightarrow> dict_set d k v = d @ [(k, v)]"
  by (induction d) auto

lemma save_loop_distinct:
  "distinct (map fst acc @ map (\<lambda>(k, s). saved_key R k) items) \<Longrightarrow>
   save_loop R items acc = acc @ map (\<lambda>(k, s). (saved_key R k, s)) items"
proof (induction items arbitrary: acc)
  case Nil
  then show ?case by simp
next
  case (Cons a items)
  obtain k s where a: "a = (k, s)" by (cases a)
  have new: "saved_key R k \<notin> fst ` set acc" using Cons.prems a by auto
  have "distinct (map fst (acc @ [(saved_key R k, s)]) @ map (\<lambda>(k, s). saved_key R k) items)"
    using Cons.prems a by auto
  then show ?case using Cons.IH a new by (simp add: dict_set_new)
qed

lemma load_loop_saved:
  "list_all (\<lambda>(k, s). tracked_key (cfg_fs env) k \<and> (s = S_CHECKED \<or> s = S_UNCHECKED)) items \<Longrightarrow>
   load_loop env R (map (\<lambda>(k, s). (saved_key R k, s)) items) m = fold store_put items m"
proof (induction items arbitrary: m)
  case Nil
  then show ?case by simp
next
  case (Cons a items)
  obtain k s where a: "a = (k, s)" by (cases a)
  have "load_entry env R (saved_key R k) s m = store_put a m"
    using Cons.prems a by (simp add: load_entry_saved store_put_def)
  then show ?case using Cons a by simp
qed

lemma fold_updates:
  "distinct (map fst items) \<Longrightarrow> fold store_put items m = m ++ map_of items"
proof (induction items arbitrary: m)
  case Nil
  then show ?case by simp
next
  case (Cons a items)
  obtain k s where a: "a = (k, s)" by (cases a)
  have fresh: "map_of items k = None"
    using Cons.prems a by (auto simp: map_of_eq_None_iff)
  have d: "distinct (map fst items)" using Cons.prems by simp
  have h: "store_put a m ++ map_of items = m ++ map_of (a # items)"
  proof (rule ext)
    fix x
    show "(store_put a m ++ map_of items) x = (m ++ map_of (a # items)) x"
      using fresh by (cases "x = k") (auto simp: store_put_def map_add_def a split: option.splits)
  qed
  have "fold store_put (a # items) m = fold store_put items (store_put a m)" by simp
  also have "\<dots> = store_put a m ++ map_of items" using d by (rule Cons.IH)
  also note h
  finally show ?case .
qed

lemma saved_keys_distinct:
  assumes "tracked_store fs items"
  shows "distinct (map (\<lambda>(k, s). saved_key R k) items)"
proof -
  have d: "distinct (map fst items)" and t: "\<forall>(k, s) \<in> set items. tracked_key fs k"
    using assms by (auto simp: tracked_store_def list_all_iff)
  have "inj_on (saved_key R) (set (map fst items))"
    using t saved_key_inj[of fs _ _ R] by (auto simp: inj_on_def) blast
  then have "distinct (map (saved_key R) (map fst items))"
    unfolding distinct_map[of "saved_key R" "map fst items"] using d by blast
  moreover have "map (saved_key R) (map fst items) = map (\<lambda>(k, s). saved_key R k) items"
    by (induction items) auto
  ultimately show ?thesis by (simp only:)
qed

lemma save_then_load:
  assumes "is_dir (cfg_fs env) R" "config_path_ok env" "write_ok env" "read_ok env"
    and "tracked_store (cfg_fs env) items"
  shows "load_project_config env (Some R) (save_project_config env items dyn (Some R) disk)
           = (map_of items, sorted_list_of_set (set dyn))"
proof -
  have sl: "save_loop R items [] = map (\<lambda>(k, s). (saved_key R k, s)) items"
    using save_loop_distinct[of "[]" R items] saved_keys_distinct[OF assms(5)] by simp
  have "load_loop env R (map (\<lambda>(k, s). (saved_key R k, s)) items) Map.empty = map_of items"
    using assms(5) by (simp add: load_loop_saved fold_updates tracked_store_def)
  then show ?thesis using assms(1-4) sl
    by (simp add: load_project_config_def save_project_config_def)
qed

text \<open>
  Claim C4. For a root that is an existing directory, a configuration file that can be
  written and read, and a store whose keys are resolved absolute path strings with one
  of the two states: loading what was saved, against the same root, gives back the
  store itself. So every path has the same effective selection as before, a rescan seeds
  every tracked directory with its state, and the dynamic exclusions are the same set.
\<close>

theorem save_load_round_trip:
  assumes "is_dir (cfg_fs env) R" and "config_path_ok env" and "write_ok env" and "read_ok env"
    and "tracked_store (cfg_fs env) store_items"
  shows "is_path_effectively_selected (cfg_fs env)
           (fst (load_project_config env (Some R)
                   (save_project_config env store_items dyn (Some R) config_file))) P (Some R)
         = is_path_effectively_selected (cfg_fs env) (map_of store_items) P (Some R)
         \<and> fst (load_project_config env (Some R)
                   (save_project_config env store_items dyn (Some R) config_file))
             = map_of store_items
         \<and> (\<forall>(k, s) \<in> set store_items.
               initial_state
                 (fst (load_project_config env (Some R)
                         (save_project_config env store_items dyn (Some R) config_file)))
                 k relative_path_s p_name = s)
         \<and> set (snd (load_project_config env (Some R)
                        (save_project_config env store_items dyn (Some R) config_file)))
             = set dyn"
proof -
  let ?loaded = "load_project_config env (Some R)
                   (save_project_config env store_items dyn (Some R) config_file)"
  have eq: "?loaded = (map_of store_items, sorted_list_of_set (set dyn))"
    using assms by (rule save_then_load)
  have d: "distinct (map fst store_items)"
    using assms(5) by (simp add: tracked_store_def)
  have seed: "initial_state (map_of store_items) k relative_path_s p_name = s"
    if "(k, s) \<in> set store_items" for k s
  proof -
    have "map_of store_items k = Some s" using d that by simp
    then show ?thesis by (simp add: initial_state_def)
  qed
  have "set (sorted_list_of_set (set dyn)) = set dyn" by simp
  then show ?thesis using seed by (auto simp: eq)
qed

lemma ex_tracked: "tracked_store (cfg_fs ex_config_env) ex_store_items"
  by (simp add: tracked_store_def ex_store_items_def ex_config_env_def ex_fs_def tracked_key_def
        parse_path_def path_str_def startswith_def S_CHECKED_def S_UNCHECKED_def)

theorem save_load_round_trip_witness:
  "is_dir (cfg_fs ex_config_env) ex_root \<and> config_path_ok ex_config_env
   \<and> write_ok ex_config_env \<and> read_ok ex_config_env
   \<and> tracked_store (cfg_fs ex_config_env) ex_store_items
   \<and> is_path_effectively_selected (cfg_fs ex_config_env)
        (fst (load_project_config ex_config_env (Some ex_root)
                (save_project_config ex_config_env ex_store_items [''*.log'', ''*.bak'']
                   (Some ex_root) None))) ex_src (Some ex_root)
   \<and> set (snd (load_project_config ex_config_env (Some ex_root)
                (save_project_config ex_config_env ex_store_items [''*.log'', ''*.bak'']
                   (Some ex_root) None))) = {''*.log'', ''*.bak''}"
proof -
  have h: "is_dir (cfg_fs ex_config_env) ex_root" "config_path_ok ex_config_env"
    "write_ok ex_config_env" "read_ok ex_config_env"
    by (simp_all add: ex_config_env_def ex_fs_def)
  have sel: "is_path_effectively_selected (cfg_fs ex_config_env) (map_of ex_store_items)
               ex_src (Some ex_root)"
    by (simp add: ex_config_env_def ex_fs_def ex_store_items_def ex_src_def ex_root_def
          is_path_effectively_selected_def relative_to_def selection_walk.simps
          path_str_def parent_def)
  show ?thesis
    using save_load_round_trip[OF h ex_tracked, of "[''*.log'', ''*.bak'']" None ex_src]
      h ex_tracked sel
    by auto
qed

end
